theory Spec2Isabelle
  imports Complex_Main "HOL-Library.AList"
begin

section \<open>JavaScript numbers\<close>

text \<open>
  The dimensions and option fields of \<^verbatim>\<open>BatchProcessor.tsx\<close> are JavaScript numbers.
  The finite ones are modelled as exact rationals (rounding of doubles and the sign of
  zero are left out); the three non-finite values are kept, since \<^verbatim>\<open>parseInt\<close> of an
  empty input field is \<^verbatim>\<open>NaN\<close> and a division by zero is \<^verbatim>\<open>Infinity\<close> or \<^verbatim>\<open>NaN\<close>,
  not an error.
\<close>

datatype jsnum = Num rat | PosInf | NegInf | NaN

text \<open>\<^verbatim>\<open>a * b\<close>\<close>

fun js_mul :: "jsnum \<Rightarrow> jsnum \<Rightarrow> jsnum" where
  "js_mul (Num a) (Num b) = Num (a * b)"
| "js_mul NaN _ = NaN"
| "js_mul _ NaN = NaN"
| "js_mul (Num a) PosInf = (if a = 0 then NaN else if 0 < a then PosInf else NegInf)"
| "js_mul (Num a) NegInf = (if a = 0 then NaN else if 0 < a then NegInf else PosInf)"
| "js_mul PosInf (Num b) = (if b = 0 then NaN else if 0 < b then PosInf else NegInf)"
| "js_mul NegInf (Num b) = (if b = 0 then NaN else if 0 < b then NegInf else PosInf)"
| "js_mul PosInf PosInf = PosInf"
| "js_mul PosInf NegInf = NegInf"
| "js_mul NegInf PosInf = NegInf"
| "js_mul NegInf NegInf = PosInf"

text \<open>\<^verbatim>\<open>a / b\<close>: a zero divisor gives an infinity, or \<^verbatim>\<open>NaN\<close> for \<^verbatim>\<open>0 / 0\<close>.\<close>

fun js_div :: "jsnum \<Rightarrow> jsnum \<Rightarrow> jsnum" where
  "js_div (Num a) (Num b) =
     (if b = 0 then (if a = 0 then NaN else if 0 < a then PosInf else NegInf)
      else Num (a / b))"
| "js_div NaN _ = NaN"
| "js_div _ NaN = NaN"
| "js_div (Num a) PosInf = Num 0"
| "js_div (Num a) NegInf = Num 0"
| "js_div PosInf (Num b) = (if 0 \<le> b then PosInf else NegInf)"
| "js_div NegInf (Num b) = (if 0 \<le> b then NegInf else PosInf)"
| "js_div PosInf PosInf = NaN"
| "js_div PosInf NegInf = NaN"
| "js_div NegInf PosInf = NaN"
| "js_div NegInf NegInf = NaN"

section \<open>Processing options (\<^verbatim>\<open>ProcessingOptions\<close>, BatchProcessor.tsx lines 22-37)\<close>

record resize_options =
  enabled :: bool
  width :: jsnum
  height :: jsnum
  maintainAspectRatio :: bool

text \<open>
  The four slider values. \<^verbatim>\<open>FilterPreset.filters\<close> of the editor has the same four
  fields and two more, so it is the extension \<open>active_filters\<close> below.
\<close>

record filter_options =
  brightness :: rat
  contrast :: rat
  saturation :: rat
  blur :: rat

record active_filters = filter_options +
  sepia :: rat
  grayscale :: rat

datatype format = PNG | JPEG | WEBP

fun format_str :: "format \<Rightarrow> string" where
  "format_str PNG = ''png''"
| "format_str JPEG = ''jpeg''"
| "format_str WEBP = ''webp''"

record processing_options =
  resize :: resize_options
  filters :: filter_options
  format :: format
  quality :: rat

definition defaultOptions :: processing_options where
  "defaultOptions =
     \<lparr> resize = \<lparr> enabled = False, width = Num 1920, height = Num 1080,
                  maintainAspectRatio = True \<rparr>,
       filters = \<lparr> brightness = 0, contrast = 0, saturation = 0, blur = 0 \<rparr>,
       format = JPEG,
       quality = 90 \<rparr>"

section \<open>Output dimensions (\<^verbatim>\<open>img.onload\<close>, BatchProcessor.tsx lines 79-100)\<close>

text \<open>
  \<open>resolve\<close> is the dimension computation of \<^verbatim>\<open>processImage\<close>: from the natural size of
  the loaded image to the pair \<^verbatim>\<open>(width, height)\<close> that is assigned to the canvas and
  passed to \<^verbatim>\<open>drawImage\<close>. The comparison \<^verbatim>\<open>width > height\<close> is on the natural size and
  is strict; the source has no rounding step.
\<close>

definition resolve :: "nat \<Rightarrow> nat \<Rightarrow> resize_options \<Rightarrow> jsnum \<times> jsnum" where
  "resolve naturalWidth naturalHeight rs =
     (if enabled rs then
        (if maintainAspectRatio rs then
           (let aspectRatio = js_div (Num (of_nat naturalWidth)) (Num (of_nat naturalHeight))
            in if naturalWidth > naturalHeight
               then (width rs, js_div (width rs) aspectRatio)
               else (js_mul (height rs) aspectRatio, height rs))
         else (width rs, height rs))
      else (Num (of_nat naturalWidth), Num (of_nat naturalHeight)))"

section \<open>Filter pipelines\<close>

subsection \<open>Batch path (\<^verbatim>\<open>ctx.filter\<close>, BatchProcessor.tsx lines 102-108)\<close>

text \<open>
  The template string assigned to \<^verbatim>\<open>ctx.filter\<close> is a list of four CSS filter
  functions; each constructor carries the number that the template interpolates
  (a percentage for the first three, a pixel length for the blur).
\<close>

datatype css_filter =
    css_brightness rat
  | css_contrast rat
  | css_saturate rat
  | css_blur rat

definition ctx_filter :: "filter_options \<Rightarrow> css_filter list" where
  "ctx_filter f =
     [css_brightness (100 + brightness f),
      css_contrast (100 + contrast f),
      css_saturate (100 + saturation f),
      css_blur (blur f)]"

subsection \<open>Editor path (\<^verbatim>\<open>applyFilters\<close> of the photo editor)\<close>

datatype fabric_filter =
    Brightness rat
  | Contrast rat
  | Saturation rat
  | Blur rat
  | Sepia
  | Grayscale

text \<open>
  Every filter object is made by \<^verbatim>\<open>new (window as any).fabric.Image.filters.X(...)\<close>,
  that is through the global \<^verbatim>\<open>window.fabric\<close>. The editor itself imports
  \<^verbatim>\<open>Canvas\<close>, \<^verbatim>\<open>Circle\<close>, \<^verbatim>\<open>Rect\<close> and \<^verbatim>\<open>FabricImage\<close> from the module
  \<^verbatim>\<open>fabric\<close> and nothing in the repository sets the global, so whether the page
  defines it is a parameter, \<open>window_fabric\<close>. Where it is undefined, reading
  \<^verbatim>\<open>.Image\<close> of \<^verbatim>\<open>undefined\<close> throws a \<^verbatim>\<open>TypeError\<close>.
\<close>

datatype js_error = TypeError

definition new_filter :: "bool \<Rightarrow> fabric_filter \<Rightarrow> js_error + fabric_filter" where
  "new_filter window_fabric f = (if window_fabric then Inr f else Inl TypeError)"

text \<open>
  One statement \<^verbatim>\<open>if (cond) { filters.push(new ...) }\<close>, run after the statements
  before it: an exception thrown earlier has already ended the function.
\<close>

fun push_if ::
  "bool \<Rightarrow> js_error + fabric_filter list \<Rightarrow> bool \<times> fabric_filter \<Rightarrow> js_error + fabric_filter list"
where
  "push_if window_fabric (Inl err) step = Inl err"
| "push_if window_fabric (Inr fs) (cond, f) =
     (if cond
      then (case new_filter window_fabric f of
              Inl err \<Rightarrow> Inl err
            | Inr x \<Rightarrow> Inr (fs @ [x]))
      else Inr fs)"

text \<open>The six statements of \<^verbatim>\<open>applyFilters\<close>, in the order of the source.\<close>

definition filter_steps :: "'a active_filters_scheme \<Rightarrow> (bool \<times> fabric_filter) list" where
  "filter_steps activeFilters =
     [(brightness activeFilters \<noteq> 0, Brightness (brightness activeFilters)),
      (contrast activeFilters \<noteq> 0, Contrast (contrast activeFilters)),
      (saturation activeFilters \<noteq> 0, Saturation (saturation activeFilters)),
      (blur activeFilters > 0, Blur (blur activeFilters / 10)),
      (sepia activeFilters > 0, Sepia),
      (grayscale activeFilters > 0, Grayscale)]"

text \<open>
  \<^verbatim>\<open>applyFilters\<close> returns at once when the image or the canvas is missing. Otherwise
  it builds the list \<^verbatim>\<open>filters\<close> (here \<open>fs\<close>) and then replaces \<^verbatim>\<open>originalImage.filters\<close>; an
  exception while building leaves the function before the replacement. The image is
  modelled by its filter list (\<open>None\<close> while no image is loaded), the canvas by its
  presence.
\<close>

definition applyFilters ::
  "bool \<Rightarrow> fabric_filter list option \<Rightarrow> bool \<Rightarrow> 'a active_filters_scheme \<Rightarrow>
   js_error + fabric_filter list option"
where
  "applyFilters window_fabric originalImage fabricCanvas activeFilters =
     (if originalImage = None \<or> \<not> fabricCanvas then Inr originalImage
      else case foldl (push_if window_fabric) (Inr []) (filter_steps activeFilters) of
             Inl err \<Rightarrow> Inl err
           | Inr fs \<Rightarrow> Inr (Some fs))"




section \<open>The batch run (\<^verbatim>\<open>startBatchProcessing\<close>, BatchProcessor.tsx lines 130-170)\<close>

subsection \<open>Photos and the browser\<close>

text \<open>The fields of \<^verbatim>\<open>Photo\<close> that the batch processor reads.\<close>

record photo =
  photo_id :: string
  title :: string
  file_url :: string

type_synonym blob = "nat list"

text \<open>
  What the browser and the user decide during a run: whether \<^verbatim>\<open>getContext('2d')\<close>
  gives a context, whether the image loads (\<^verbatim>\<open>onload\<close> with its natural size, or
  \<^verbatim>\<open>onerror\<close>), what \<^verbatim>\<open>canvas.toBlob\<close> hands to its callback (\<open>None\<close> for \<^verbatim>\<open>null\<close>),
  whether \<^verbatim>\<open>zip.generateAsync\<close> resolves (\<open>None\<close> when it rejects), \<^verbatim>\<open>Date.now()\<close>, and
  the clicks that arrive while the run waits after item \<open>i\<close>.
\<close>

datatype ui_action = ClickCancel | ClickClose

text \<open>An entry of a \<^verbatim>\<open>JSZip\<close> object: a file with its content, or a folder.\<close>

datatype zip_entry = File blob | Dir

record env =
  get_context :: "photo \<Rightarrow> bool"
  load_image :: "photo \<Rightarrow> (nat \<times> nat) option"
  to_blob :: "photo \<Rightarrow> jsnum \<times> jsnum \<Rightarrow> css_filter list \<Rightarrow> format \<Rightarrow> rat \<Rightarrow> blob option"
  generate_zip :: "(string \<times> zip_entry) list \<Rightarrow> blob option"
  now :: nat
  ui_actions :: "nat \<Rightarrow> ui_action list"

subsection \<open>One image (\<^verbatim>\<open>processImage\<close>, lines 66-128)\<close>

text \<open>The three rejections of the promise, in the order of the source.\<close>

datatype error =
    NoCanvasContext   \<comment> \<open>\<^verbatim>\<open>Could not get canvas context\<close>\<close>
  | ImageLoadFailed   \<comment> \<open>\<^verbatim>\<open>Failed to load image\<close>\<close>
  | EncodeFailed      \<comment> \<open>\<^verbatim>\<open>Failed to process image\<close>\<close>

definition processImage :: "env \<Rightarrow> processing_options \<Rightarrow> photo \<Rightarrow> error + blob" where
  "processImage e options p =
     (if \<not> get_context e p then Inl NoCanvasContext
      else case load_image e p of
             None \<Rightarrow> Inl ImageLoadFailed
           | Some (naturalWidth, naturalHeight) \<Rightarrow>
               (case to_blob e p (resolve naturalWidth naturalHeight (resize options))
                       (ctx_filter (filters options)) (format options) (quality options / 100) of
                  None \<Rightarrow> Inl EncodeFailed
                | Some b \<Rightarrow> Inr b))"

subsection \<open>Effects of the run\<close>

text \<open>
  Every call with an effect outside the function is an event of the trace, in the order
  of the calls. \<^verbatim>\<open>zip.generateAsync\<close> is recorded with the entries it is called on,
  the success toast carries the count that its message interpolates, \<^verbatim>\<open>saveAs\<close> the
  zip blob and the time stamp of the file name.
\<close>

datatype event =
    SetProcessing bool
  | SetProgress rat
  | SetCurrentPhoto string
  | CallProcessImage photo
  | ConsoleError string
  | ToastError string
  | CallGenerateAsync "(string \<times> zip_entry) list"
  | ToastSuccess nat
  | SaveAs blob nat

text \<open>
  The state that the run and the dialog work on: the \<^verbatim>\<open>JSZip\<close> object as its
  entries (name and entry, a name at most once), \<^verbatim>\<open>processedPhotos\<close>, the trace,
  the \<^verbatim>\<open>processing\<close> flag that disables the buttons, and the \<^verbatim>\<open>open\<close> flag of the
  dialog, which the parent sets through \<^verbatim>\<open>onOpenChange\<close>.
\<close>

record run_state =
  zip_obj :: "(string \<times> zip_entry) list"
  processedPhotos :: "(string \<times> blob) list"
  trace :: "event list"
  processing :: bool
  dialog_open :: bool

definition emit :: "event \<Rightarrow> run_state \<Rightarrow> run_state" where
  "emit ev st = st\<lparr>trace := trace st @ [ev]\<rparr>"

subsection \<open>The zip object (\<^verbatim>\<open>file\<close> of the library JSZip 3)\<close>

text \<open>
  \<^verbatim>\<open>zip.file(name, blob)\<close> is a call into the library, which is not part of the
  repository; the definitions below follow its functions \<^verbatim>\<open>parentFolder\<close>,
  \<^verbatim>\<open>forceTrailingSlash\<close>, \<^verbatim>\<open>folderAdd\<close> and \<^verbatim>\<open>fileAdd\<close>, with the default
  \<^verbatim>\<open>createFolders = true\<close> and the root of a new object.
\<close>

text \<open>\<^verbatim>\<open>s.lastIndexOf(c)\<close>, with \<open>None\<close> for \<open>-1\<close>.\<close>

fun lastIndexOf :: "char \<Rightarrow> string \<Rightarrow> nat option" where
  "lastIndexOf c [] = None"
| "lastIndexOf c (x # xs) =
     (case lastIndexOf c xs of
        Some i \<Rightarrow> Some (Suc i)
      | None \<Rightarrow> if x = c then Some 0 else None)"

definition ends_with_slash :: "string \<Rightarrow> bool" where
  "ends_with_slash path = (path \<noteq> [] \<and> last path = CHR ''/'')"

definition forceTrailingSlash :: "string \<Rightarrow> string" where
  "forceTrailingSlash path = (if ends_with_slash path then path else path @ ''/'')"

definition parentFolder :: "string \<Rightarrow> string" where
  "parentFolder path =
     (let path1 = (if ends_with_slash path then butlast path else path)
      in case lastIndexOf CHR ''/'' path1 of
           Some lastSlash \<Rightarrow> if 0 < lastSlash then take lastSlash path1 else []
         | None \<Rightarrow> [])"

text \<open>
  \<^verbatim>\<open>fileAdd\<close> with \<^verbatim>\<open>folderAdd\<close> unfolded in it: when the name has a parent folder
  and the object has no entry for it yet, the folder is added first (and before it
  its own parents); then the entry of the name is set, in place when the name is
  there already. \<open>name\<close> is the name after \<^verbatim>\<open>forceTrailingSlash\<close> for a folder.
\<close>

function fileAdd ::
  "string \<Rightarrow> zip_entry \<Rightarrow> (string \<times> zip_entry) list \<Rightarrow> (string \<times> zip_entry) list"
where
  "fileAdd name object files =
     AList.update name object
       (if parentFolder name \<noteq> [] \<and>
           map_of files (forceTrailingSlash (parentFolder name)) = None
        then fileAdd (forceTrailingSlash (parentFolder name)) Dir files
        else files)"
  by pat_completeness auto
termination
proof (relation "measure (\<lambda>(name, object, files). length name)")
  show "wf (measure (\<lambda>(name, object, files). length name))"
    by simp
next
  fix name :: string and object :: zip_entry and files :: "(string \<times> zip_entry) list"
  assume "parentFolder name \<noteq> [] \<and>
          map_of files (forceTrailingSlash (parentFolder name)) = None"
  then have nonempty: "parentFolder name \<noteq> []" by simp
  have idx: "lastIndexOf c s = Some i \<Longrightarrow> i < length s \<and> s ! i = c" for c s i
  proof (induction s arbitrary: i)
    case Nil
    then show ?case by simp
  next
    case (Cons x xs)
    then show ?case by (auto split: option.splits if_splits)
  qed
  define path1 where "path1 = (if ends_with_slash name then butlast name else name)"
  from nonempty obtain i where i: "lastIndexOf CHR ''/'' path1 = Some i"
    and parent: "parentFolder name = take i path1"
    by (auto simp: parentFolder_def path1_def Let_def split: option.splits if_splits)
  from idx [OF i] have lt: "i < length path1" and at: "path1 ! i = CHR ''/''"
    by simp_all
  have len: "length (forceTrailingSlash (parentFolder name)) \<le> Suc i"
    using parent lt by (simp add: forceTrailingSlash_def)
  have "length (forceTrailingSlash (parentFolder name)) < length name"
  proof (cases "ends_with_slash name")
    case True
    then have "length path1 < length name"
      by (simp add: path1_def ends_with_slash_def)
    with len lt show ?thesis by simp
  next
    case False
    then have p: "path1 = name" by (simp add: path1_def)
    have "i \<noteq> length name - 1"
    proof
      assume "i = length name - 1"
      moreover from lt p have ne: "name \<noteq> []" by auto
      ultimately have "last name = CHR ''/''"
        using at p by (simp add: last_conv_nth [OF ne])
      with False ne show False by (simp add: ends_with_slash_def)
    qed
    with lt p have "Suc i < length name" by simp
    with len show ?thesis by simp
  qed
  then show "((forceTrailingSlash (parentFolder name), Dir, files), name, object, files)
               \<in> measure (\<lambda>(name, object, files). length name)"
    by simp
qed

declare fileAdd.simps [simp del]

text \<open>\<^verbatim>\<open>zip.file(name, blob)\<close> on the entries of the object.\<close>

definition zip_file ::
  "string \<Rightarrow> blob \<Rightarrow> (string \<times> zip_entry) list \<Rightarrow> (string \<times> zip_entry) list"
where
  "zip_file name b z = fileAdd name (File b) z"

text \<open>
  The two buttons of the dialog. \<^verbatim>\<open>Cancel\<close> is disabled while \<^verbatim>\<open>processing\<close>; both
  call \<^verbatim>\<open>onOpenChange(false)\<close> and nothing else.
\<close>

fun handle_ui :: "run_state \<Rightarrow> ui_action \<Rightarrow> run_state" where
  "handle_ui st ClickCancel = (if processing st then st else st\<lparr>dialog_open := False\<rparr>)"
| "handle_ui st ClickClose = st\<lparr>dialog_open := False\<rparr>"

definition fileName :: "processing_options \<Rightarrow> photo \<Rightarrow> string" where
  "fileName options p = title p @ ''.'' @ format_str (format options)"

text \<open>The body of the \<^verbatim>\<open>for\<close> loop for item \<open>i\<close> of \<open>n\<close>, with its inner \<^verbatim>\<open>try/catch\<close>.\<close>

definition process_item ::
  "env \<Rightarrow> processing_options \<Rightarrow> nat \<Rightarrow> nat \<Rightarrow> photo \<Rightarrow> run_state \<Rightarrow> run_state"
where
  "process_item e options n i p st =
     (let st1 = emit (CallProcessImage p) (emit (SetCurrentPhoto (title p)) st);
          st2 = (case processImage e options p of
                   Inr processedBlob \<Rightarrow>
                     st1\<lparr>processedPhotos := processedPhotos st1 @ [(fileName options p, processedBlob)],
                         zip_obj := zip_file (fileName options p) processedBlob (zip_obj st1)\<rparr>
                 | Inl err \<Rightarrow>
                     emit (ToastError (''Failed to process '' @ title p))
                       (emit (ConsoleError (''Failed to process '' @ title p @ '':'')) st1))
      in emit (SetProgress ((of_nat i + 1) / of_nat n * 100)) st2)"

text \<open>
  The loop over \<^verbatim>\<open>photos\<close> from index \<open>i\<close> on. The clicks of the user are handled while
  the run waits; the loop reads neither flag.
\<close>

fun batch_loop ::
  "env \<Rightarrow> processing_options \<Rightarrow> nat \<Rightarrow> nat \<Rightarrow> photo list \<Rightarrow> run_state \<Rightarrow> run_state"
where
  "batch_loop e options n i [] st = st"
| "batch_loop e options n i (p # rest) st =
     batch_loop e options n (Suc i) rest
       (foldl handle_ui (process_item e options n i p st) (ui_actions e i))"

definition startBatchProcessing ::
  "env \<Rightarrow> processing_options \<Rightarrow> photo list \<Rightarrow> run_state \<Rightarrow> run_state"
where
  "startBatchProcessing e options photos st =
     (if length photos = 0 then st
      else
        (let st1 = emit (SetProgress 0) (emit (SetProcessing True) (st\<lparr>processing := True\<rparr>));
             st2 = batch_loop e options (length photos) 0 photos
                     (st1\<lparr>zip_obj := [], processedPhotos := []\<rparr>);
             st3 = (if length (processedPhotos st2) > 0 then
                      (let st2a = emit (CallGenerateAsync (zip_obj st2)) st2
                       in case generate_zip e (zip_obj st2) of
                            Some zipBlob \<Rightarrow>
                              emit (ToastSuccess (length (processedPhotos st2)))
                                (emit (SaveAs zipBlob (now e)) st2a)
                          | None \<Rightarrow>
                              emit (ToastError ''Batch processing failed'')
                                (emit (ConsoleError ''Batch processing error:'') st2a))
                    else st2)
         in emit (SetCurrentPhoto [])
              (emit (SetProgress 0) (emit (SetProcessing False) (st3\<lparr>processing := False\<rparr>)))))"

text \<open>The state of the dialog when it has just been opened.\<close>

definition idle :: run_state where
  "idle = \<lparr> zip_obj = [], processedPhotos = [], trace = [], processing = False, dialog_open = True \<rparr>"

subsection \<open>Reading the trace\<close>

fun attempted :: "event list \<Rightarrow> photo list" where
  "attempted [] = []"
| "attempted (CallProcessImage p # evs) = p # attempted evs"
| "attempted (_ # evs) = attempted evs"

fun saved :: "event list \<Rightarrow> blob list" where
  "saved [] = []"
| "saved (SaveAs b t # evs) = b # saved evs"
| "saved (_ # evs) = saved evs"

fun generated :: "event list \<Rightarrow> (string \<times> zip_entry) list list" where
  "generated [] = []"
| "generated (CallGenerateAsync z # evs) = z # generated evs"
| "generated (_ # evs) = generated evs"

fun success_toasts :: "event list \<Rightarrow> nat list" where
  "success_toasts [] = []"
| "success_toasts (ToastSuccess n # evs) = n # success_toasts evs"
| "success_toasts (_ # evs) = success_toasts evs"

text \<open>The photos of a list that \<^verbatim>\<open>processImage\<close> resolves, and those it rejects.\<close>

definition succeeds :: "env \<Rightarrow> processing_options \<Rightarrow> photo \<Rightarrow> bool" where
  "succeeds e options p = (case processImage e options p of Inr _ \<Rightarrow> True | Inl _ \<Rightarrow> False)"

text \<open>The entries of the zip object after \<^verbatim>\<open>zip.file\<close> has been called for each pair in turn.\<close>

definition pack ::
  "(string \<times> zip_entry) list \<Rightarrow> (string \<times> blob) list \<Rightarrow> (string \<times> zip_entry) list"
where
  "pack z kvs = foldl (\<lambda>z kv. zip_file (fst kv) (snd kv) z) z kvs"

text \<open>A list of named blobs as file entries.\<close>

definition as_files :: "(string \<times> blob) list \<Rightarrow> (string \<times> zip_entry) list" where
  "as_files kvs = map (\<lambda>kv. (fst kv, File (snd kv))) kvs"

fun successes :: "env \<Rightarrow> processing_options \<Rightarrow> photo list \<Rightarrow> (string \<times> blob) list" where
  "successes e options [] = []"
| "successes e options (p # ps) =
     (case processImage e options p of
        Inr b \<Rightarrow> (fileName options p, b) # successes e options ps
      | Inl _ \<Rightarrow> successes e options ps)"

text \<open>
  The titles of the failed items: the inner \<^verbatim>\<open>catch\<close> shows \<^verbatim>\<open>Failed to process\<close> and
  the title, the outer one \<^verbatim>\<open>Batch processing failed\<close>, which is no item's failure.
\<close>

fun strip_prefix :: "string \<Rightarrow> string \<Rightarrow> string option" where
  "strip_prefix [] s = Some s"
| "strip_prefix (c # cs) [] = None"
| "strip_prefix (c # cs) (d # ds) = (if c = d then strip_prefix cs ds else None)"

fun failed_titles :: "event list \<Rightarrow> string list" where
  "failed_titles [] = []"
| "failed_titles (ToastError m # evs) =
     (case strip_prefix ''Failed to process '' m of
        Some t \<Rightarrow> t # failed_titles evs
      | None \<Rightarrow> failed_titles evs)"
| "failed_titles (_ # evs) = failed_titles evs"

section \<open>What the specification says, for comparison\<close>

text \<open>
  The resolver of the specification for an enabled, aspect-preserving resize: a source
  with \<open>sourceW > sourceH\<close> or \<open>sourceW = sourceH\<close> takes the target width, any other
  the target height, and the other axis is rounded.
\<close>

definition spec_resolve :: "nat \<Rightarrow> nat \<Rightarrow> rat \<Rightarrow> rat \<Rightarrow> jsnum \<times> jsnum" where
  "spec_resolve sourceW sourceH targetWidth targetHeight =
     (let r = of_nat sourceW / of_nat sourceH
      in if sourceW > sourceH \<or> sourceW = sourceH
         then (Num targetWidth, Num (of_int (round (targetWidth / r))))
         else (Num (of_int (round (targetHeight * r))), Num targetHeight))"

text \<open>A dimension that is rounded to an integer and at least 1.\<close>

fun rounded_ge_1 :: "jsnum \<Rightarrow> bool" where
  "rounded_ge_1 (Num q) = (of_int (round q) = q \<and> 1 \<le> q)"
| "rounded_ge_1 _ = False"

text \<open>A target field of the specification: a positive integer.\<close>

fun positive_int :: "jsnum \<Rightarrow> bool" where
  "positive_int (Num q) = (of_int (round q) = q \<and> 0 < q)"
| "positive_int _ = False"

text \<open>The ranges of the specification's \<^verbatim>\<open>TransformSpec\<close>.\<close>

definition spec_valid :: "processing_options \<Rightarrow> bool" where
  "spec_valid options =
     (positive_int (width (resize options)) \<and> positive_int (height (resize options)) \<and>
      - 100 \<le> brightness (filters options) \<and> brightness (filters options) \<le> 100 \<and>
      - 100 \<le> contrast (filters options) \<and> contrast (filters options) \<le> 100 \<and>
      - 100 \<le> saturation (filters options) \<and> saturation (filters options) \<le> 100 \<and>
      0 \<le> blur (filters options) \<and> blur (filters options) \<le> 20 \<and>
      1 \<le> quality options \<and> quality options \<le> 100)"


section \<open>Sample runs\<close>

definition photoA :: photo where
  "photoA = \<lparr> photo_id = ''1'', title = ''A'', file_url = ''https://photos/a.png'' \<rparr>"

definition photoB :: photo where
  "photoB = \<lparr> photo_id = ''2'', title = ''B'', file_url = ''https://photos/b.png'' \<rparr>"

definition photoC :: photo where
  "photoC = \<lparr> photo_id = ''3'', title = ''C'', file_url = ''https://photos/c.png'' \<rparr>"

definition photoD :: photo where
  "photoD = \<lparr> photo_id = ''4'', title = ''D'', file_url = ''https://photos/d.png'' \<rparr>"

definition photoE :: photo where
  "photoE = \<lparr> photo_id = ''5'', title = ''E'', file_url = ''https://photos/e.png'' \<rparr>"

text \<open>A photo whose title has a slash in it.\<close>

definition photoSlash :: photo where
  "photoSlash = \<lparr> photo_id = ''7'', title = ''a/b'', file_url = ''https://photos/ab.png'' \<rparr>"


definition preset_soft :: active_filters where
  "preset_soft =
     \<lparr> brightness = 1 / 10, contrast = - (1 / 10), saturation = 1 / 10, blur = 1,
       sepia = 0, grayscale = 0 \<rparr>"

text \<open>A second photo with the title of \<open>photoA\<close>.\<close>

definition photoA2 :: photo where
  "photoA2 = \<lparr> photo_id = ''6'', title = ''A'', file_url = ''https://photos/a2.png'' \<rparr>"

text \<open>
  A browser in which every image loads, a canvas of at least one pixel in each axis
  encodes and any other gives \<^verbatim>\<open>null\<close>, and a user who does nothing.
\<close>

definition env_ok :: env where
  "env_ok =
     \<lparr> get_context = (\<lambda>p. True),
       load_image = (\<lambda>p. Some (1920, 1080)),
       to_blob = (\<lambda>p d f fmt q.
                    case d of
                      (Num w, Num h) \<Rightarrow>
                        if 1 \<le> w \<and> 1 \<le> h then Some [length (file_url p)] else None
                    | _ \<Rightarrow> None),
       generate_zip = (\<lambda>z. Some (concat (map (\<lambda>kv. case snd kv of File b \<Rightarrow> b | Dir \<Rightarrow> []) z))),
       now = 0,
       ui_actions = (\<lambda>i. []) \<rparr>"

text \<open>The image of \<open>photoB\<close> does not load.\<close>

definition env_B_fails :: env where
  "env_B_fails = env_ok\<lparr>load_image := (\<lambda>p. if title p = ''B'' then None else Some (1920, 1080))\<rparr>"

text \<open>No canvas context is available: every item fails.\<close>

definition env_all_fail :: env where
  "env_all_fail = env_ok\<lparr>get_context := (\<lambda>p. False)\<rparr>"

text \<open>The user closes the dialog once the second item (index 1) has finished.\<close>

definition env_close_after_2 :: env where
  "env_close_after_2 = env_ok\<lparr>ui_actions := (\<lambda>i. if i = 1 then [ClickClose] else [])\<rparr>"

text \<open>A resize to a width of 0, typed into the number field.\<close>

definition zero_width_options :: processing_options where
  "zero_width_options =
     defaultOptions\<lparr>resize := \<lparr> enabled = True, width = Num 0, height = Num 1080,
                                 maintainAspectRatio = False \<rparr>\<rparr>"

section \<open>Lemmas about the trace and the loop\<close>

lemma attempted_append: "attempted (xs @ ys) = attempted xs @ attempted ys"
  by (induction xs rule: attempted.induct) simp_all

lemma saved_append: "saved (xs @ ys) = saved xs @ saved ys"
  by (induction xs rule: saved.induct) simp_all

lemma generated_append: "generated (xs @ ys) = generated xs @ generated ys"
  by (induction xs rule: generated.induct) simp_all

lemma success_toasts_append: "success_toasts (xs @ ys) = success_toasts xs @ success_toasts ys"
  by (induction xs rule: success_toasts.induct) simp_all

lemma failed_titles_append: "failed_titles (xs @ ys) = failed_titles xs @ failed_titles ys"
  by (induction xs rule: failed_titles.induct) (simp_all split: option.split)

lemma strip_prefix_append: "strip_prefix pre (pre @ s) = Some s"
  by (induction pre) simp_all

lemma handle_ui_log: "trace (foldl handle_ui st acts) = trace st"
proof (induction acts arbitrary: st)
  case Nil
  show ?case by simp
next
  case (Cons a acts)
  then show ?case by (cases a) simp_all
qed

lemma handle_ui_zip: "zip_obj (foldl handle_ui st acts) = zip_obj st"
proof (induction acts arbitrary: st)
  case Nil
  show ?case by simp
next
  case (Cons a acts)
  then show ?case by (cases a) simp_all
qed

lemma handle_ui_processedPhotos:
  "processedPhotos (foldl handle_ui st acts) = processedPhotos st"
proof (induction acts arbitrary: st)
  case Nil
  show ?case by simp
next
  case (Cons a acts)
  then show ?case by (cases a) simp_all
qed

lemma process_item_attempted:
  "attempted (trace (process_item e options n i p st)) = attempted (trace st) @ [p]"
  by (simp add: process_item_def Let_def emit_def attempted_append split: sum.split)

lemma process_item_saved:
  "saved (trace (process_item e options n i p st)) = saved (trace st)"
  by (simp add: process_item_def Let_def emit_def saved_append split: sum.split)

lemma process_item_generated:
  "generated (trace (process_item e options n i p st)) = generated (trace st)"
  by (simp add: process_item_def Let_def emit_def generated_append split: sum.split)

lemma process_item_success_toasts:
  "success_toasts (trace (process_item e options n i p st)) = success_toasts (trace st)"
  by (simp add: process_item_def Let_def emit_def success_toasts_append split: sum.split)

lemma process_item_failed_titles:
  "failed_titles (trace (process_item e options n i p st)) =
     failed_titles (trace st) @ (if succeeds e options p then [] else [title p])"
  using strip_prefix_append [of "''Failed to process ''" "title p"]
  by (simp add: process_item_def Let_def emit_def failed_titles_append succeeds_def
      split: sum.split)

lemma process_item_processedPhotos:
  "processedPhotos (process_item e options n i p st) =
     processedPhotos st @ successes e options [p]"
  by (simp add: process_item_def Let_def emit_def split: sum.split)

lemma successes_append:
  "successes e options (ps @ qs) = successes e options ps @ successes e options qs"
  by (induction ps) (simp_all split: sum.split)

lemma batch_loop_attempted:
  "attempted (trace (batch_loop e options n i ps st)) = attempted (trace st) @ ps"
  by (induction ps arbitrary: i st) (simp_all add: handle_ui_log process_item_attempted)

lemma batch_loop_saved:
  "saved (trace (batch_loop e options n i ps st)) = saved (trace st)"
  by (induction ps arbitrary: i st) (simp_all add: handle_ui_log process_item_saved)

lemma batch_loop_generated:
  "generated (trace (batch_loop e options n i ps st)) = generated (trace st)"
  by (induction ps arbitrary: i st) (simp_all add: handle_ui_log process_item_generated)

lemma batch_loop_success_toasts:
  "success_toasts (trace (batch_loop e options n i ps st)) = success_toasts (trace st)"
  by (induction ps arbitrary: i st) (simp_all add: handle_ui_log process_item_success_toasts)

lemma batch_loop_failed_titles:
  "failed_titles (trace (batch_loop e options n i ps st)) =
     failed_titles (trace st) @ map title (filter (\<lambda>p. \<not> succeeds e options p) ps)"
  by (induction ps arbitrary: i st) (simp_all add: handle_ui_log process_item_failed_titles)

lemma batch_loop_processedPhotos:
  "processedPhotos (batch_loop e options n i ps st) = processedPhotos st @ successes e options ps"
proof (induction ps arbitrary: i st)
  case Nil
  show ?case by simp
next
  case (Cons p ps)
  have "successes e options (p # ps) = successes e options [p] @ successes e options ps"
    using successes_append [of e options "[p]" ps] by simp
  then show ?case
    by (simp add: Cons.IH handle_ui_processedPhotos process_item_processedPhotos
        del: successes.simps)
qed

subsection \<open>The entries of the zip object\<close>

lemma lastIndexOf_None: "c \<notin> set s \<Longrightarrow> lastIndexOf c s = None"
  by (induction s) auto

lemma parentFolder_no_slash: "CHR ''/'' \<notin> set name \<Longrightarrow> parentFolder name = []"
proof -
  assume no: "CHR ''/'' \<notin> set name"
  then have "CHR ''/'' \<notin> set (butlast name)"
    by (auto dest: in_set_butlastD)
  with no show ?thesis
    by (simp add: parentFolder_def Let_def lastIndexOf_None)
qed

lemma fileAdd_no_parent:
  "parentFolder name = [] \<Longrightarrow> fileAdd name object files = AList.update name object files"
  by (subst fileAdd.simps) simp

lemma zip_file_plain:
  "CHR ''/'' \<notin> set name \<Longrightarrow> zip_file name b z = AList.update name (File b) z"
  by (simp add: zip_file_def fileAdd_no_parent parentFolder_no_slash)

lemma fileAdd_distinct:
  "distinct (map fst files) \<Longrightarrow> distinct (map fst (fileAdd name object files))"
proof (induction name object files rule: fileAdd.induct)
  case (1 name object files)
  show ?case
    by (subst fileAdd.simps) (simp add: distinct_update 1)
qed

lemma fileAdd_keys: "insert name (fst ` set files) \<subseteq> fst ` set (fileAdd name object files)"
proof (induction name object files rule: fileAdd.induct)
  case (1 name object files)
  show ?case
  proof (cases "parentFolder name \<noteq> [] \<and>
                map_of files (forceTrailingSlash (parentFolder name)) = None")
    case True
    with 1 have "fst ` set files \<subseteq>
        fst ` set (fileAdd (forceTrailingSlash (parentFolder name)) Dir files)"
      by blast
    with True show ?thesis
      by (subst fileAdd.simps) (auto simp: dom_update)
  next
    case False
    then show ?thesis
      by (subst fileAdd.simps) (auto simp: dom_update)
  qed
qed

lemma zip_file_keys:
  "CHR ''/'' \<notin> set name \<Longrightarrow> fst ` set (zip_file name b z) = insert name (fst ` set z)"
  by (simp add: zip_file_plain dom_update)

lemma zip_file_distinct: "distinct (map fst z) \<Longrightarrow> distinct (map fst (zip_file name b z))"
  by (simp add: zip_file_def fileAdd_distinct)

lemma zip_file_keys_sup: "insert name (fst ` set z) \<subseteq> fst ` set (zip_file name b z)"
  unfolding zip_file_def by (rule fileAdd_keys)

lemma batch_loop_zip:
  "zip_obj (batch_loop e options n i ps st) = pack (zip_obj st) (successes e options ps)"
  by (induction ps arbitrary: i st)
     (simp_all add: pack_def handle_ui_zip process_item_def Let_def emit_def split: sum.split)

lemma pack_keys:
  "\<forall>kv \<in> set kvs. CHR ''/'' \<notin> set (fst kv) \<Longrightarrow>
   fst ` set (pack z kvs) = fst ` set z \<union> fst ` set kvs"
  unfolding pack_def by (induction kvs arbitrary: z) (simp_all add: zip_file_keys)

lemma pack_keys_sup: "fst ` set z \<union> fst ` set kvs \<subseteq> fst ` set (pack z kvs)"
proof (induction kvs arbitrary: z)
  case Nil
  show ?case by (simp add: pack_def)
next
  case (Cons kv kvs)
  define A where "A = fst ` set z"
  define B where "B = fst ` set (zip_file (fst kv) (snd kv) z)"
  define C where "C = fst ` set kvs"
  define D where "D = fst ` set (pack (zip_file (fst kv) (snd kv) z) kvs)"
  have eq: "pack z (kv # kvs) = pack (zip_file (fst kv) (snd kv) z) kvs"
    by (simp add: pack_def)
  have "B \<union> C \<subseteq> D"
    unfolding B_def C_def D_def by (rule Cons.IH)
  moreover have "insert (fst kv) A \<subseteq> B"
    unfolding A_def B_def by (rule zip_file_keys_sup)
  ultimately have "A \<union> insert (fst kv) C \<subseteq> D"
    by blast
  then show ?case
    by (simp add: eq A_def C_def D_def)
qed

lemma pack_distinct: "distinct (map fst z) \<Longrightarrow> distinct (map fst (pack z kvs))"
  unfolding pack_def by (induction kvs arbitrary: z) (simp_all add: zip_file_distinct)

lemma pack_length:
  assumes "\<forall>kv \<in> set kvs. CHR ''/'' \<notin> set (fst kv)"
  shows "length (pack [] kvs) = card (fst ` set kvs)"
proof -
  have "distinct (map fst (pack [] kvs))"
    by (rule pack_distinct) simp
  then have "card (set (map fst (pack [] kvs))) = length (map fst (pack [] kvs))"
    by (rule distinct_card)
  then show ?thesis
    using assms by (simp add: pack_keys)
qed

lemma successes_names:
  "map fst (successes e options ps) = map (fileName options) (filter (succeeds e options) ps)"
  by (induction ps) (simp_all add: succeeds_def split: sum.split)

lemma successes_length:
  "length (successes e options ps) = length (filter (succeeds e options) ps)"
  using successes_names [of e options ps] by (metis length_map)

lemma filter_split_length:
  "length (filter P xs) + length (filter (\<lambda>x. \<not> P x) xs) = length xs"
  by (induction xs) simp_all

lemma fileName_slash:
  "CHR ''/'' \<in> set (fileName options p) \<longleftrightarrow> CHR ''/'' \<in> set (title p)"
  by (cases "format options") (auto simp: fileName_def)

lemma distinct_fileNames:
  "distinct (map title ps) \<Longrightarrow> distinct (map (fileName options) ps)"
  by (induction ps) (auto simp: fileName_def)

lemma start_attempted:
  "attempted (trace (startBatchProcessing e options photos idle)) = photos"
  by (simp add: startBatchProcessing_def Let_def emit_def attempted_append batch_loop_attempted
      idle_def split: option.split)

lemma start_failed_titles:
  "failed_titles (trace (startBatchProcessing e options photos idle)) =
     map title (filter (\<lambda>p. \<not> succeeds e options p) photos)"
  by (simp add: startBatchProcessing_def Let_def emit_def failed_titles_append
      batch_loop_failed_titles idle_def split: option.split)

lemma start_processedPhotos:
  "processedPhotos (startBatchProcessing e options photos idle) = successes e options photos"
  by (simp add: startBatchProcessing_def Let_def emit_def batch_loop_processedPhotos
      idle_def split: option.split)

lemma start_zip:
  "zip_obj (startBatchProcessing e options photos idle) = pack [] (successes e options photos)"
  by (simp add: startBatchProcessing_def Let_def emit_def batch_loop_zip pack_def
      idle_def split: option.split)

lemma start_saved:
  "saved (trace (startBatchProcessing e options photos idle)) =
     (if successes e options photos = [] then []
      else case generate_zip e (pack [] (successes e options photos)) of
             Some zipBlob \<Rightarrow> [zipBlob] | None \<Rightarrow> [])"
  by (simp add: startBatchProcessing_def Let_def emit_def saved_append batch_loop_saved
      batch_loop_processedPhotos batch_loop_zip idle_def split: option.split)

lemma start_generated:
  "generated (trace (startBatchProcessing e options photos idle)) =
     (if successes e options photos = [] then []
      else [pack [] (successes e options photos)])"
  by (simp add: startBatchProcessing_def Let_def emit_def generated_append batch_loop_generated
      batch_loop_processedPhotos batch_loop_zip idle_def split: option.split)

lemma start_success_toasts:
  "success_toasts (trace (startBatchProcessing e options photos idle)) =
     (if successes e options photos = [] then []
      else case generate_zip e (pack [] (successes e options photos)) of
             Some zipBlob \<Rightarrow> [length (successes e options photos)] | None \<Rightarrow> [])"
  by (simp add: startBatchProcessing_def Let_def emit_def success_toasts_append
      batch_loop_success_toasts batch_loop_processedPhotos batch_loop_zip idle_def
      split: option.split)

lemma start_processing:
  "processing (startBatchProcessing e options photos idle) = False"
  by (simp add: startBatchProcessing_def Let_def emit_def idle_def split: option.split)

lemma processImage_ignores_ui:
  "processImage (e\<lparr>ui_actions := acts\<rparr>) options p = processImage e options p"
  by (simp add: processImage_def split: option.split prod.split)

lemma process_item_ignores_ui:
  assumes "trace st = trace st'" and "zip_obj st = zip_obj st'"
    and "processedPhotos st = processedPhotos st'"
  shows "trace (process_item (e\<lparr>ui_actions := acts\<rparr>) options n i p st) =
           trace (process_item e options n i p st') \<and>
         zip_obj (process_item (e\<lparr>ui_actions := acts\<rparr>) options n i p st) =
           zip_obj (process_item e options n i p st') \<and>
         processedPhotos (process_item (e\<lparr>ui_actions := acts\<rparr>) options n i p st) =
           processedPhotos (process_item e options n i p st')"
  using assms
  by (simp add: process_item_def Let_def emit_def processImage_ignores_ui split: sum.split)

lemma batch_loop_ignores_ui:
  assumes "trace st = trace st'" and "zip_obj st = zip_obj st'"
    and "processedPhotos st = processedPhotos st'"
  shows "trace (batch_loop (e\<lparr>ui_actions := acts\<rparr>) options n i ps st) =
           trace (batch_loop e options n i ps st') \<and>
         zip_obj (batch_loop (e\<lparr>ui_actions := acts\<rparr>) options n i ps st) =
           zip_obj (batch_loop e options n i ps st') \<and>
         processedPhotos (batch_loop (e\<lparr>ui_actions := acts\<rparr>) options n i ps st) =
           processedPhotos (batch_loop e options n i ps st')"
  using assms
proof (induction ps arbitrary: i st st')
  case Nil
  then show ?case by simp
next
  case (Cons p ps)
  let ?a = "foldl handle_ui (process_item (e\<lparr>ui_actions := acts\<rparr>) options n i p st) (acts i)"
  let ?b = "foldl handle_ui (process_item e options n i p st') (ui_actions e i)"
  have item: "trace ?a = trace ?b" "zip_obj ?a = zip_obj ?b" "processedPhotos ?a = processedPhotos ?b"
    using process_item_ignores_ui [OF Cons.prems, where e = e and acts = acts
        and options = options and n = n and i = i and p = p]
    by (simp_all add: handle_ui_log handle_ui_zip handle_ui_processedPhotos)
  show ?case
    using Cons.IH [OF item, where i = "Suc i"] by simp
qed

lemma start_ignores_ui:
  "trace (startBatchProcessing (e\<lparr>ui_actions := acts\<rparr>) options photos idle) =
     trace (startBatchProcessing e options photos idle)"
proof (cases "photos = []")
  case True
  then show ?thesis by (simp add: startBatchProcessing_def)
next
  case False
  let ?st = "idle\<lparr>processing := True, trace := [SetProcessing True, SetProgress 0],
             zip_obj := [], processedPhotos := []\<rparr>"
  note loop = batch_loop_ignores_ui [where st = ?st and st' = ?st and e = e and acts = acts
      and options = options and n = "length photos" and i = 0 and ps = photos]
  show ?thesis
    using False loop
    by (simp add: startBatchProcessing_def Let_def emit_def idle_def split: option.split)
qed

lemma successes_ignores_ui:
  "successes (e\<lparr>ui_actions := acts\<rparr>) options ps = successes e options ps"
  by (induction ps) (simp_all add: processImage_ignores_ui split: sum.split)

lemma positive_int_ge_1: "positive_int x \<Longrightarrow> rounded_ge_1 x"
proof (cases x)
  case (Num q)
  assume "positive_int x"
  with Num have int: "of_int (round q) = q" and pos: "0 < q" by simp_all
  from pos int have "0 < (of_int (round q) :: rat)" by simp
  then have "1 \<le> round q" by simp
  then have "(1::rat) \<le> of_int (round q)" by (metis of_int_1_le_iff)
  with int Num show ?thesis by simp
qed simp_all

lemma rounded_of_nat: "0 < n \<Longrightarrow> rounded_ge_1 (Num (of_nat n))"
  by (simp add: Suc_leI)

lemma zip_file_new:
  "CHR ''/'' \<notin> set name \<Longrightarrow> name \<notin> fst ` set z \<Longrightarrow>
   zip_file name b z = z @ [(name, File b)]"
  unfolding zip_file_plain by (induction z) auto

lemma pack_distinct_append:
  "\<forall>kv \<in> set kvs. CHR ''/'' \<notin> set (fst kv) \<Longrightarrow>
   distinct (map fst z @ map fst kvs) \<Longrightarrow> pack z kvs = z @ as_files kvs"
proof (induction kvs arbitrary: z)
  case Nil
  show ?case by (simp add: pack_def as_files_def)
next
  case (Cons kv kvs)
  from Cons.prems have new: "fst kv \<notin> fst ` set z" and plain: "CHR ''/'' \<notin> set (fst kv)"
    by auto
  from Cons.prems have "distinct (map fst (z @ [(fst kv, File (snd kv))]) @ map fst kvs)"
    by auto
  moreover from Cons.prems have "\<forall>kv \<in> set kvs. CHR ''/'' \<notin> set (fst kv)" by simp
  ultimately have "pack (z @ [(fst kv, File (snd kv))]) kvs =
      (z @ [(fst kv, File (snd kv))]) @ as_files kvs"
    using Cons.IH by blast
  moreover have "pack z (kv # kvs) = pack (z @ [(fst kv, File (snd kv))]) kvs"
    using new plain by (simp add: pack_def zip_file_new)
  ultimately show ?case by (simp add: as_files_def)
qed

lemma pack_distinct_keys:
  "\<forall>kv \<in> set kvs. CHR ''/'' \<notin> set (fst kv) \<Longrightarrow> distinct (map fst kvs) \<Longrightarrow>
   pack [] kvs = as_files kvs"
  using pack_distinct_append [of kvs "[]"] by simp

subsection \<open>The filter list of the editor\<close>





subsection \<open>The sample runs, item by item\<close>

lemma env_ok_processImage:
  "processImage env_ok defaultOptions p = Inr [length (file_url p)]"
  by (simp add: processImage_def env_ok_def defaultOptions_def resolve_def)

lemma env_B_fails_processImage:
  "processImage env_B_fails defaultOptions p =
     (if title p = ''B'' then Inl ImageLoadFailed else Inr [length (file_url p)])"
  by (simp add: processImage_def env_B_fails_def env_ok_def defaultOptions_def resolve_def)

lemma env_all_fail_processImage:
  "processImage env_all_fail options p = Inl NoCanvasContext"
  by (simp add: processImage_def env_all_fail_def env_ok_def)

lemma env_close_after_2_processImage:
  "processImage env_close_after_2 defaultOptions p = Inr [length (file_url p)]"
  by (simp add: processImage_def env_close_after_2_def env_ok_def defaultOptions_def resolve_def)

lemma zero_width_processImage:
  "processImage env_ok zero_width_options p = Inl EncodeFailed"
  by (simp add: processImage_def env_ok_def zero_width_options_def defaultOptions_def resolve_def)

lemma default_fileName: "fileName defaultOptions p = title p @ ''.jpeg''"
  by (simp add: fileName_def defaultOptions_def)

lemmas sample_photos = photoA_def photoB_def photoC_def photoD_def photoE_def photoA2_def
  photoSlash_def

section \<open>Claims about the output dimensions\<close>

text \<open>
  Claim C1 does not hold as stated. It puts a square source on the landscape side and
  rounds the derived axis. The source compares with \<^verbatim>\<open>width > height\<close>, so a square
  source of 100 by 100 with targets 1920 by 1080 takes the target height and comes out
  as 1080 by 1080, where the claim gives a width of 1920; and nothing is rounded, so
  the portrait source of 800 by 1200 with targets 640 by 640 comes out 1280/3 wide,
  where the claim gives 427.
\<close>

theorem square_source_and_rounding_counterexample:
  "resolve 100 100 \<lparr> enabled = True, width = Num 1920, height = Num 1080,
                     maintainAspectRatio = True \<rparr> = (Num 1080, Num 1080) \<and>
   spec_resolve 100 100 1920 1080 = (Num 1920, Num 1920) \<and>
   resolve 100 100 \<lparr> enabled = True, width = Num 1920, height = Num 1080,
                     maintainAspectRatio = True \<rparr> \<noteq> spec_resolve 100 100 1920 1080 \<and>
   resolve 800 1200 \<lparr> enabled = True, width = Num 640, height = Num 640,
                      maintainAspectRatio = True \<rparr> = (Num (1280 / 3), Num 640) \<and>
   spec_resolve 800 1200 640 640 = (Num 427, Num 640)"
  by code_simp

text \<open>
  Claim C1, amended. For a source of positive dimensions and an enabled,
  aspect-preserving resize with finite targets: if \<open>sourceW > sourceH\<close> (landscape
  only), the output width is the target width and the output height is
  \<open>targetWidth / r\<close> with \<open>r = sourceW / sourceH\<close>, not rounded; otherwise (portrait
  or square) the output height is the target height and the output width is
  \<open>targetHeight * r\<close>, not rounded.
\<close>

theorem resolve_locks_axis_by_strict_orientation:
  assumes "0 < sourceW" and "0 < sourceH"
    and "enabled rs" and "maintainAspectRatio rs"
    and "width rs = Num targetWidth" and "height rs = Num targetHeight"
  shows "resolve sourceW sourceH rs =
           (if sourceW > sourceH
            then (Num targetWidth, Num (targetWidth / (of_nat sourceW / of_nat sourceH)))
            else (Num (targetHeight * (of_nat sourceW / of_nat sourceH)), Num targetHeight))"
  using assms by (simp add: resolve_def Let_def)

text \<open>
  The amended claim C1 at the 1920 by 1080 source of the specification's example,
  with targets 640 by 640: the output is 640 by 360.
\<close>

theorem resolve_locks_axis_by_strict_orientation_witness:
  "(0::nat) < 1920 \<and> (0::nat) < 1080 \<and>
   resolve 1920 1080 \<lparr> enabled = True, width = Num 640, height = Num 640,
                       maintainAspectRatio = True \<rparr> = (Num 640, Num 360)"
  using resolve_locks_axis_by_strict_orientation
    [of 1920 1080 "\<lparr> enabled = True, width = Num 640, height = Num 640,
                      maintainAspectRatio = True \<rparr>" 640 640]
  by simp

text \<open>
  Claim C9 does not hold as stated: a source of 4 by 1 with targets 2 by 2 and the
  aspect ratio preserved gets the height 1/2, which is neither an integer nor at
  least 1.
\<close>

theorem unrounded_dimension_counterexample:
  "resolve 4 1 \<lparr> enabled = True, width = Num 2, height = Num 2,
                 maintainAspectRatio = True \<rparr> = (Num 2, Num (1 / 2)) \<and>
   \<not> rounded_ge_1 (Num (1 / 2))"
  by (simp add: resolve_def Let_def)

text \<open>
  Claim C9, amended. For a source of positive dimensions and positive integer target
  fields, both output dimensions are finite and positive. They are integers of at
  least 1 when the resize is disabled or the aspect ratio is not preserved; with the
  aspect ratio preserved this holds for the locked axis (the width for
  \<open>sourceW > sourceH\<close>, the height otherwise), and the other axis is the exact
  quotient, which is not rounded.
\<close>

theorem resolve_dimensions_positive:
  assumes "0 < sourceW" and "0 < sourceH"
    and "positive_int (width rs)" and "positive_int (height rs)"
  shows "\<exists>a b. resolve sourceW sourceH rs = (Num a, Num b) \<and> 0 < a \<and> 0 < b \<and>
           (\<not> (enabled rs \<and> maintainAspectRatio rs) \<longrightarrow>
              rounded_ge_1 (Num a) \<and> rounded_ge_1 (Num b)) \<and>
           (enabled rs \<and> maintainAspectRatio rs \<longrightarrow>
              (if sourceW > sourceH then rounded_ge_1 (Num a) else rounded_ge_1 (Num b)))"
proof -
  obtain tw th where tw: "width rs = Num tw" and th: "height rs = Num th"
    using assms(3,4) by (cases "width rs"; cases "height rs") simp_all
  have ptw: "0 < tw" and pth: "0 < th"
    using assms(3,4) tw th by simp_all
  have rtw: "rounded_ge_1 (Num tw)" and rth: "rounded_ge_1 (Num th)"
    using positive_int_ge_1 assms(3,4) tw th by metis+
  have rw: "rounded_ge_1 (Num (of_nat sourceW))" and rh: "rounded_ge_1 (Num (of_nat sourceH))"
    using assms(1,2) by (simp_all add: rounded_of_nat)
  show ?thesis
  proof (cases "enabled rs")
    case False
    then show ?thesis using assms(1,2) rw rh by (simp add: resolve_def)
  next
    case en: True
    show ?thesis
    proof (cases "maintainAspectRatio rs")
      case False
      then show ?thesis using en tw th ptw pth rtw rth by (simp add: resolve_def)
    next
      case True
      then show ?thesis
        using en tw th ptw pth rtw rth assms(1,2) by (simp add: resolve_def Let_def)
    qed
  qed
qed

text \<open>
  The amended claim C9 at the source of 4 by 1 with targets 2 by 2: the locked width
  is 2, the derived height is the positive fraction 1/2.
\<close>

theorem resolve_dimensions_positive_witness:
  "(0::nat) < 4 \<and> (0::nat) < 1 \<and> positive_int (Num 2) \<and>
   resolve 4 1 \<lparr> enabled = True, width = Num 2, height = Num 2,
                 maintainAspectRatio = True \<rparr> = (Num 2, Num (1 / 2)) \<and>
   (0::rat) < 2 \<and> (0::rat) < 1 / 2 \<and> rounded_ge_1 (Num 2)"
  using resolve_dimensions_positive
    [of 4 1 "\<lparr> enabled = True, width = Num 2, height = Num 2, maintainAspectRatio = True \<rparr>"]
  by (simp add: resolve_def Let_def)

section \<open>Claims about the filter pipelines\<close>




text \<open>
  Claim C10 is what the code sets out to do, and the editor fails to do it. With the
  preset \<^verbatim>\<open>Soft\<close> (blur 1) the batch path emits \<^verbatim>\<open>blur(1px)\<close>, and the editor would
  push a blur of 1/10 if the global \<^verbatim>\<open>window.fabric\<close> were defined; where it is
  undefined, as under the module import of the editor itself, \<^verbatim>\<open>applyFilters\<close>
  throws a \<^verbatim>\<open>TypeError\<close> at its first push and applies no filter at all. The same
  holds for a spec whose only non-neutral field is a blur of 5.
\<close>

theorem editor_blur_throws_without_global:
  "ctx_filter \<lparr> brightness = 1 / 10, contrast = - (1 / 10), saturation = 1 / 10, blur = 1 \<rparr> =
     [css_brightness (1001 / 10), css_contrast (999 / 10), css_saturate (1001 / 10), css_blur 1] \<and>
   applyFilters True (Some []) True preset_soft =
     Inr (Some [Brightness (1 / 10), Contrast (- (1 / 10)), Saturation (1 / 10), Blur (1 / 10)]) \<and>
   applyFilters False (Some []) True preset_soft = Inl TypeError \<and>
   applyFilters False (Some []) True
     \<lparr> brightness = 0, contrast = 0, saturation = 0, blur = 5, sepia = 0, grayscale = 0 \<rparr>
     = Inl TypeError"
  by (simp add: ctx_filter_def applyFilters_def filter_steps_def new_filter_def preset_soft_def)

section \<open>Claims about the batch run\<close>

text \<open>
  Claim C2. If \<^verbatim>\<open>processImage\<close> rejects for the photo at index \<open>k\<close>, for any of its
  three reasons, the run still calls \<^verbatim>\<open>processImage\<close> for every photo of the batch in
  input order, shows the failure toast for that photo, and ends with \<^verbatim>\<open>processing\<close>
  reset.
\<close>

theorem item_failure_does_not_abort:
  assumes "k < length photos"
    and "processImage e options (photos ! k) = Inl err"
  shows "attempted (trace (startBatchProcessing e options photos idle)) = photos \<and>
         title (photos ! k) \<in> set (failed_titles (trace (startBatchProcessing e options photos idle))) \<and>
         processing (startBatchProcessing e options photos idle) = False"
proof -
  have "\<not> succeeds e options (photos ! k)"
    using assms(2) by (simp add: succeeds_def)
  moreover have "photos ! k \<in> set photos"
    using assms(1) by simp
  ultimately have "title (photos ! k) \<in>
      set (map title (filter (\<lambda>p. \<not> succeeds e options p) photos))"
    by simp
  then show ?thesis
    by (simp only: start_attempted start_failed_titles start_processing simp_thms)
qed

text \<open>
  Claim C2 at the batch A, B, C in which the image of B does not load.
\<close>

theorem item_failure_does_not_abort_witness:
  "(1::nat) < length [photoA, photoB, photoC] \<and>
   processImage env_B_fails defaultOptions ([photoA, photoB, photoC] ! 1) = Inl ImageLoadFailed \<and>
   attempted (trace (startBatchProcessing env_B_fails defaultOptions [photoA, photoB, photoC] idle))
     = [photoA, photoB, photoC] \<and>
   failed_titles (trace (startBatchProcessing env_B_fails defaultOptions [photoA, photoB, photoC] idle))
     = [''B'']"
proof -
  have h1: "(1::nat) < length [photoA, photoB, photoC]" by simp
  have h2: "processImage env_B_fails defaultOptions ([photoA, photoB, photoC] ! 1) = Inl ImageLoadFailed"
    by (simp add: env_B_fails_processImage photoB_def)
  have ft: "failed_titles (trace (startBatchProcessing env_B_fails defaultOptions [photoA, photoB, photoC] idle))
     = [''B'']"
    by (simp add: start_failed_titles succeeds_def env_B_fails_processImage sample_photos)
  from item_failure_does_not_abort [OF h1 h2] h1 h2 ft show ?thesis by simp
qed

text \<open>
  Claim C3 does not hold as stated. Two photos with the same title both succeed
  (N = 2, K = 0), and the archive has one entry, the second photo's, since
  \<^verbatim>\<open>zip.file\<close> replaces an entry of the same name. One photo whose title has a slash
  in it succeeds (N = 1, K = 0), and the archive has two entries, the folder and the
  file. And the only list of results, \<^verbatim>\<open>processedPhotos\<close>, has no entry for a failed
  item: for A, B, C with B failing it holds A and C.
\<close>

theorem archive_entries_counterexample:
  "length (filter (succeeds env_ok defaultOptions) [photoA, photoA2]) = 2 \<and>
   zip_obj (startBatchProcessing env_ok defaultOptions [photoA, photoA2] idle)
     = [(''A.jpeg'', File [21])] \<and>
   length (zip_obj (startBatchProcessing env_ok defaultOptions [photoA, photoA2] idle)) = 1 \<and>
   length (filter (succeeds env_ok defaultOptions) [photoSlash]) = 1 \<and>
   zip_obj (startBatchProcessing env_ok defaultOptions [photoSlash] idle)
     = [(''a/'', Dir), (''a/b.jpeg'', File [21])] \<and>
   processedPhotos (startBatchProcessing env_B_fails defaultOptions [photoA, photoB, photoC] idle)
     = [(''A.jpeg'', [20]), (''C.jpeg'', [20])]"
proof -
  have folder: "fileAdd ''a/'' Dir [] = [(''a/'', Dir)]"
    by (subst fileAdd.simps)
       (simp add: parentFolder_def ends_with_slash_def forceTrailingSlash_def Let_def)
  have slash: "zip_file ''a/b.jpeg'' b [] = [(''a/'', Dir), (''a/b.jpeg'', File b)]" for b
    unfolding zip_file_def
    by (subst fileAdd.simps)
       (simp add: parentFolder_def ends_with_slash_def forceTrailingSlash_def Let_def folder)
  have same: "zip_file ''A.jpeg'' b2 (zip_file ''A.jpeg'' b1 []) = [(''A.jpeg'', File b2)]"
    for b1 b2
    by (simp add: zip_file_plain)
  show ?thesis
    by (simp add: start_zip start_processedPhotos succeeds_def env_ok_processImage
        env_B_fails_processImage sample_photos pack_def default_fileName slash same)
qed

text \<open>
  Claim C3, amended. \<^verbatim>\<open>processedPhotos\<close> has one entry for each photo that
  transforms, in input order, and none for a failed one; the failed ones are reported
  by one toast each, in input order. With N photos of which K fail, the two counts
  add up to N and \<^verbatim>\<open>processedPhotos\<close> has N - K entries. The zip object has no name
  twice and has an entry under every file name of \<^verbatim>\<open>processedPhotos\<close> (it may have
  folder entries besides). When no successful title contains a slash, it has exactly
  one entry for each distinct file name among the successes; when in addition the
  successful titles are pairwise distinct, its entries are exactly the N - K entries
  of \<^verbatim>\<open>processedPhotos\<close>, as files, in input order.
\<close>

theorem batch_results_accounting:
  fixes e :: env and options :: processing_options and photos :: "photo list"
  defines "r \<equiv> startBatchProcessing e options photos idle"
  defines "ok \<equiv> filter (succeeds e options) photos"
  defines "failing \<equiv> filter (\<lambda>p. \<not> succeeds e options p) photos"
  shows "map fst (processedPhotos r) = map (fileName options) ok \<and>
         failed_titles (trace r) = map title failing \<and>
         length (processedPhotos r) + length (failed_titles (trace r)) = length photos \<and>
         length (processedPhotos r) = length photos - length failing \<and>
         distinct (map fst (zip_obj r)) \<and>
         fst ` set (processedPhotos r) \<subseteq> fst ` set (zip_obj r) \<and>
         ((\<forall>p \<in> set ok. CHR ''/'' \<notin> set (title p)) \<longrightarrow>
            length (zip_obj r) = card (fst ` set (processedPhotos r))) \<and>
         ((\<forall>p \<in> set ok. CHR ''/'' \<notin> set (title p)) \<and> distinct (map title ok) \<longrightarrow>
            zip_obj r = as_files (processedPhotos r) \<and>
            length (zip_obj r) = length photos - length failing)"
proof -
  have split: "length ok + length failing = length photos"
    unfolding ok_def failing_def by (rule filter_split_length)
  have names: "map fst (processedPhotos r) = map (fileName options) ok"
    unfolding r_def ok_def by (simp add: start_processedPhotos successes_names)
  have len: "length (processedPhotos r) = length ok"
    unfolding r_def ok_def by (simp add: start_processedPhotos successes_length)
  have failed: "failed_titles (trace r) = map title failing"
    unfolding r_def failing_def by (rule start_failed_titles)
  have zip: "zip_obj r = pack [] (processedPhotos r)"
    unfolding r_def by (simp add: start_zip start_processedPhotos)
  have dist: "distinct (map fst (zip_obj r))"
    unfolding zip by (rule pack_distinct) simp
  have sup: "fst ` set (processedPhotos r) \<subseteq> fst ` set (zip_obj r)"
    unfolding zip using pack_keys_sup [of "[]" "processedPhotos r"] by simp
  have plain: "\<forall>kv \<in> set (processedPhotos r). CHR ''/'' \<notin> set (fst kv)"
    if "\<forall>p \<in> set ok. CHR ''/'' \<notin> set (title p)"
  proof -
    from that have "\<forall>n \<in> set (map (fileName options) ok). CHR ''/'' \<notin> set n"
      by (simp add: fileName_slash)
    then have "\<forall>n \<in> set (map fst (processedPhotos r)). CHR ''/'' \<notin> set n"
      by (simp only: names)
    then show ?thesis by simp
  qed
  have c1: "length (processedPhotos r) + length (failed_titles (trace r)) = length photos"
    using split len failed by simp
  have c2: "length (processedPhotos r) = length photos - length failing"
    using split len by simp
  have c3: "(\<forall>p \<in> set ok. CHR ''/'' \<notin> set (title p)) \<longrightarrow>
            length (zip_obj r) = card (fst ` set (processedPhotos r))"
    unfolding zip using plain by (blast intro: pack_length)
  have c4: "(\<forall>p \<in> set ok. CHR ''/'' \<notin> set (title p)) \<and> distinct (map title ok) \<longrightarrow>
            zip_obj r = as_files (processedPhotos r) \<and>
            length (zip_obj r) = length photos - length failing"
  proof
    assume h: "(\<forall>p \<in> set ok. CHR ''/'' \<notin> set (title p)) \<and> distinct (map title ok)"
    then have "distinct (map fst (processedPhotos r))"
      using names by (simp add: distinct_fileNames)
    with h plain have "zip_obj r = as_files (processedPhotos r)"
      unfolding zip by (blast intro: pack_distinct_keys)
    then show "zip_obj r = as_files (processedPhotos r) \<and>
               length (zip_obj r) = length photos - length failing"
      using c2 by (simp add: as_files_def)
  qed
  from names failed c1 c2 dist sup c3 c4 show ?thesis by blast
qed

text \<open>The amended claim C3 at the batch A, B, C in which B fails.\<close>

theorem batch_results_accounting_witness:
  "filter (succeeds env_B_fails defaultOptions) [photoA, photoB, photoC] = [photoA, photoC] \<and>
   CHR ''/'' \<notin> set (title photoA) \<and> CHR ''/'' \<notin> set (title photoC) \<and>
   distinct (map title [photoA, photoC]) \<and>
   map fst (processedPhotos (startBatchProcessing env_B_fails defaultOptions [photoA, photoB, photoC] idle))
     = [''A.jpeg'', ''C.jpeg''] \<and>
   failed_titles (trace (startBatchProcessing env_B_fails defaultOptions [photoA, photoB, photoC] idle))
     = [''B''] \<and>
   length (zip_obj (startBatchProcessing env_B_fails defaultOptions [photoA, photoB, photoC] idle)) = 2"
proof -
  let ?r = "startBatchProcessing env_B_fails defaultOptions [photoA, photoB, photoC] idle"
  have ok: "filter (succeeds env_B_fails defaultOptions) [photoA, photoB, photoC] = [photoA, photoC]"
    by (simp add: succeeds_def env_B_fails_processImage sample_photos)
  have bad: "filter (\<lambda>p. \<not> succeeds env_B_fails defaultOptions p) [photoA, photoB, photoC] = [photoB]"
    by (simp add: succeeds_def env_B_fails_processImage sample_photos)
  have d: "distinct (map title [photoA, photoC])"
    by (simp add: sample_photos)
  have s: "\<forall>p \<in> set [photoA, photoC]. CHR ''/'' \<notin> set (title p)"
    by (simp add: sample_photos)
  note t = batch_results_accounting [of env_B_fails defaultOptions "[photoA, photoB, photoC]",
      unfolded ok bad]
  from t have names: "map fst (processedPhotos ?r) = map (fileName defaultOptions) [photoA, photoC]"
    by blast
  from t have failed: "failed_titles (trace ?r) = map title [photoB]"
    by blast
  from t d s have "length (zip_obj ?r) = length [photoA, photoB, photoC] - length [photoB]"
    by blast
  then have entries: "length (zip_obj ?r) = 2"
    by simp
  from names have names': "map fst (processedPhotos ?r) = [''A.jpeg'', ''C.jpeg'']"
    by (simp add: default_fileName sample_photos)
  from failed have failed': "failed_titles (trace ?r) = [''B'']"
    by (simp add: sample_photos)
  from s have "CHR ''/'' \<notin> set (title photoA)" and "CHR ''/'' \<notin> set (title photoC)"
    by simp_all
  with ok d names' failed' entries show ?thesis
    by blast
qed

text \<open>
  Claim C4 does not hold as stated: when every item fails, \<^verbatim>\<open>generateAsync\<close> and
  \<^verbatim>\<open>saveAs\<close> are never called, so no archive is made and none reaches the user; and
  for an empty batch the run returns at once without any effect.
\<close>

theorem no_archive_without_success_counterexample:
  "successes env_all_fail defaultOptions [photoA, photoB] = [] \<and>
   saved (trace (startBatchProcessing env_all_fail defaultOptions [photoA, photoB] idle)) = [] \<and>
   generated (trace (startBatchProcessing env_all_fail defaultOptions [photoA, photoB] idle)) = [] \<and>
   trace (startBatchProcessing env_ok defaultOptions [] idle) = []"
proof -
  have "trace (startBatchProcessing env_ok defaultOptions [] idle) = []"
    by (simp add: startBatchProcessing_def idle_def)
  then show ?thesis
    by (simp add: start_saved start_generated env_all_fail_processImage)
qed

text \<open>
  Claim C4, amended. With zero successes no archive is generated and none is
  delivered: \<^verbatim>\<open>generateAsync\<close> and \<^verbatim>\<open>saveAs\<close> are not called and no success toast is
  shown. With at least one success \<^verbatim>\<open>generateAsync\<close> is called once, on the zip
  object; when it resolves, the archive is delivered once and one success toast with
  the number of successes is shown, and when it rejects, neither happens.
\<close>

theorem archive_saved_only_after_a_success:
  fixes e :: env and options :: processing_options and photos :: "photo list"
  defines "r \<equiv> startBatchProcessing e options photos idle"
  shows "generated (trace r) =
           (if successes e options photos = [] then [] else [zip_obj r]) \<and>
         saved (trace r) =
           (if successes e options photos = [] then []
            else case generate_zip e (zip_obj r) of
                   Some zipBlob \<Rightarrow> [zipBlob]
                 | None \<Rightarrow> []) \<and>
         success_toasts (trace r) =
           (if successes e options photos = [] then []
            else case generate_zip e (zip_obj r) of
                   Some zipBlob \<Rightarrow> [length (successes e options photos)]
                 | None \<Rightarrow> [])"
  unfolding r_def
  by (simp only: start_saved start_generated start_success_toasts start_zip simp_thms)

text \<open>
  The amended claim C4 at a batch in which all items fail, and at the batch A, B, C
  in which only B fails.
\<close>

theorem archive_saved_only_after_a_success_witness:
  "successes env_all_fail defaultOptions [photoA, photoB] = [] \<and>
   generated (trace (startBatchProcessing env_all_fail defaultOptions [photoA, photoB] idle)) = [] \<and>
   saved (trace (startBatchProcessing env_all_fail defaultOptions [photoA, photoB] idle)) = [] \<and>
   success_toasts (trace (startBatchProcessing env_all_fail defaultOptions [photoA, photoB] idle)) = [] \<and>
   successes env_B_fails defaultOptions [photoA, photoB, photoC] \<noteq> [] \<and>
   generated (trace (startBatchProcessing env_B_fails defaultOptions [photoA, photoB, photoC] idle))
     = [[(''A.jpeg'', File [20]), (''C.jpeg'', File [20])]] \<and>
   saved (trace (startBatchProcessing env_B_fails defaultOptions [photoA, photoB, photoC] idle))
     = [[20, 20]] \<and>
   success_toasts (trace (startBatchProcessing env_B_fails defaultOptions [photoA, photoB, photoC] idle))
     = [2]"
proof -
  have z: "zip_obj (startBatchProcessing env_B_fails defaultOptions [photoA, photoB, photoC] idle)
            = [(''A.jpeg'', File [20]), (''C.jpeg'', File [20])]"
    by (simp add: start_zip env_B_fails_processImage sample_photos pack_def zip_file_plain
        default_fileName)
  have g: "generate_zip env_B_fails [(''A.jpeg'', File [20]), (''C.jpeg'', File [20])] = Some [20, 20]"
    by (simp add: env_B_fails_def env_ok_def)
  from archive_saved_only_after_a_success [of env_all_fail defaultOptions "[photoA, photoB]"]
    archive_saved_only_after_a_success [of env_B_fails defaultOptions "[photoA, photoB, photoC]"]
  show ?thesis
    unfolding z g by (simp add: env_all_fail_processImage env_B_fails_processImage sample_photos)
qed

text \<open>
  Claim C5 does not hold as stated: with a target width of 0, which is out of range,
  the batch is not rejected. Both photos are attempted and each fails on its own.
\<close>

theorem invalid_spec_processed_per_item_counterexample:
  "\<not> spec_valid zero_width_options \<and>
   attempted (trace (startBatchProcessing env_ok zero_width_options [photoA, photoB] idle))
     = [photoA, photoB] \<and>
   failed_titles (trace (startBatchProcessing env_ok zero_width_options [photoA, photoB] idle))
     = [''A'', ''B'']"
proof -
  have "\<not> spec_valid zero_width_options"
    by (simp add: spec_valid_def zero_width_options_def)
  then show ?thesis
    by (simp add: start_attempted start_failed_titles succeeds_def zero_width_processImage
        sample_photos)
qed

text \<open>
  Claim C5, amended. The run does not validate the options. With options out of
  range every photo of the batch is still attempted, in input order, and the
  failures are those of the single items.
\<close>

theorem invalid_spec_is_not_rejected:
  assumes "\<not> spec_valid options"
  shows "attempted (trace (startBatchProcessing e options photos idle)) = photos \<and>
         length (attempted (trace (startBatchProcessing e options photos idle))) = length photos \<and>
         failed_titles (trace (startBatchProcessing e options photos idle)) =
           map title (filter (\<lambda>p. \<not> succeeds e options p) photos)"
  by (simp only: start_attempted start_failed_titles simp_thms)

text \<open>
  The amended claim C5 at a target width of 0 and the batch A, B.
\<close>

theorem invalid_spec_is_not_rejected_witness:
  "\<not> spec_valid zero_width_options \<and>
   attempted (trace (startBatchProcessing env_ok zero_width_options [photoA, photoB] idle))
     = [photoA, photoB] \<and>
   length (attempted (trace (startBatchProcessing env_ok zero_width_options [photoA, photoB] idle))) = 2"
proof -
  have h: "\<not> spec_valid zero_width_options"
    by (simp add: spec_valid_def zero_width_options_def)
  from invalid_spec_is_not_rejected [OF h, of env_ok "[photoA, photoB]"] h
  show ?thesis by simp
qed

text \<open>
  Claim C6 does not hold as stated: the user closes the dialog after item 2 of 5, and
  the run still attempts all five photos and collects five results, not two.
\<close>

theorem closing_the_dialog_does_not_cancel_counterexample:
  "ui_actions env_close_after_2 1 = [ClickClose] \<and>
   attempted (trace (startBatchProcessing env_close_after_2 defaultOptions
                [photoA, photoB, photoC, photoD, photoE] idle))
     = [photoA, photoB, photoC, photoD, photoE] \<and>
   length (processedPhotos (startBatchProcessing env_close_after_2 defaultOptions
                [photoA, photoB, photoC, photoD, photoE] idle)) = 5"
proof -
  have "ui_actions env_close_after_2 1 = [ClickClose]"
    by (simp add: env_close_after_2_def)
  then show ?thesis
    by (simp add: start_attempted start_processedPhotos env_close_after_2_processImage)
qed

text \<open>
  Claim C6, amended. The run has no cancellation. Whatever the user clicks during the
  run (the Cancel button is disabled while processing, closing the dialog only clears
  its open flag), the effects and the results are those of a run without any click:
  all N photos are attempted and every photo that transforms is collected.
\<close>

theorem run_ignores_user_actions:
  "trace (startBatchProcessing (e\<lparr>ui_actions := acts\<rparr>) options photos idle) =
     trace (startBatchProcessing e options photos idle) \<and>
   processedPhotos (startBatchProcessing (e\<lparr>ui_actions := acts\<rparr>) options photos idle) =
     processedPhotos (startBatchProcessing e options photos idle) \<and>
   attempted (trace (startBatchProcessing (e\<lparr>ui_actions := acts\<rparr>) options photos idle)) = photos \<and>
   length (processedPhotos (startBatchProcessing (e\<lparr>ui_actions := acts\<rparr>) options photos idle)) =
     length (filter (succeeds e options) photos)"
  by (simp only: start_ignores_ui start_attempted start_processedPhotos successes_ignores_ui
      successes_length simp_thms)

text \<open>
  The amended claim C6 at the batch of five photos with the dialog closed after the
  second.
\<close>

theorem run_ignores_user_actions_witness:
  "trace (startBatchProcessing env_close_after_2 defaultOptions
            [photoA, photoB, photoC, photoD, photoE] idle) =
   trace (startBatchProcessing env_ok defaultOptions
            [photoA, photoB, photoC, photoD, photoE] idle) \<and>
   length (processedPhotos (startBatchProcessing env_close_after_2 defaultOptions
            [photoA, photoB, photoC, photoD, photoE] idle)) = 5"
  using run_ignores_user_actions
    [where e = env_ok and acts = "\<lambda>i. if i = 1 then [ClickClose] else []"
       and options = defaultOptions and photos = "[photoA, photoB, photoC, photoD, photoE]"]
  by (simp add: env_close_after_2_def start_processedPhotos env_ok_processImage)

end
